theory Spec2Isabelle
  imports Complex_Main
begin

section \<open>The animation engine's objects\<close>

text \<open>
  The library drives objects of the host's animation engine. An animation is held by
  reference and mutated in place, so the model keeps a store from references to the
  fields the library reads and writes: the delay and duration of the animation's effect
  (what \<^verbatim>\<open>effect.getComputedTiming()\<close> returns and \<^verbatim>\<open>effect.updateTiming\<close> takes), the
  \<^verbatim>\<open>id\<close>, the \<^verbatim>\<open>currentTime\<close> and whether the animation is running. Times are finite
  numbers in exact arithmetic (the rounding of doubles is not modelled).
\<close>

type_synonym ref = nat

record timing =
  delay :: rat
  duration :: rat

record animation =
  effect :: timing
  anim_id :: string
  currentTime :: rat
  playing :: bool

type_synonym store = "ref \<Rightarrow> animation"

definition getComputedTiming :: "animation \<Rightarrow> timing" where
  "getComputedTiming a = effect a"

definition updateTiming :: "animation \<Rightarrow> timing \<Rightarrow> animation" where
  "updateTiming a t = a\<lparr>effect := t\<rparr>"

text \<open>
  The engine declares \<^verbatim>\<open>Animation.id\<close> a string. A value assigned to it is converted to
  a string first, so that assigning \<^verbatim>\<open>null\<close> (here \<open>None\<close>) stores the four letters
  \<^verbatim>\<open>null\<close>; and reading it yields a string, never \<^verbatim>\<open>null\<close>.
\<close>

definition DOMString :: "string option \<Rightarrow> string" where
  "DOMString v = (case v of None \<Rightarrow> ''null'' | Some str \<Rightarrow> str)"

definition set_id :: "string option \<Rightarrow> animation \<Rightarrow> animation" where
  "set_id v a = a\<lparr>anim_id := DOMString v\<rparr>"


text \<open>
  \<^verbatim>\<open>animation.play()\<close> starts the animation, and first rewinds it to 0 when its current
  time is below 0 or at or after the end of its effect; \<^verbatim>\<open>animation.pause()\<close> stops it
  where it is. An animation runs forward at rate 1, once and with no end delay, as
  \<^verbatim>\<open>tween\<close> makes it, so its effect ends at delay plus duration.
\<close>

definition effect_end :: "animation \<Rightarrow> rat" where
  "effect_end a = max (delay (effect a) + duration (effect a)) 0"

definition animation_play :: "animation \<Rightarrow> animation" where
  "animation_play a =
     a\<lparr>currentTime := (if currentTime a < 0 \<or> effect_end a \<le> currentTime a then 0
                         else currentTime a),
       playing := True\<rparr>"

definition animation_pause :: "animation \<Rightarrow> animation" where
  "animation_pause a = a\<lparr>playing := False\<rparr>"

text \<open>
  The arguments of \<^verbatim>\<open>group\<close> and \<^verbatim>\<open>sequence\<close> are told apart by
  \<^verbatim>\<open>arg.constructor.name\<close>. \<open>Anim\<close>, \<open>Arr\<close> and \<open>Str\<close> are the values whose constructor is
  named Animation, Array and String; an array holds animations. \<open>Other n\<close> is any other
  value that has a constructor, \<open>n\<close> being that constructor's name (none of the three,
  so no case of the \<^verbatim>\<open>switch\<close> matches it); \<open>Nullish\<close> is
  \<^verbatim>\<open>null\<close> or \<^verbatim>\<open>undefined\<close>, on which reading \<^verbatim>\<open>.constructor\<close> throws a TypeError.
\<close>

datatype item = Anim ref | Arr "ref list" | Str string | Other string | Nullish

datatype error = TypeError

fun constructor_name :: "item \<Rightarrow> error + string" where
  "constructor_name (Anim a) = Inr ''Animation''"
| "constructor_name (Arr xs) = Inr ''Array''"
| "constructor_name (Str l) = Inr ''String''"
| "constructor_name (Other n) = Inr n"
| "constructor_name Nullish = Inl TypeError"

text \<open>
  \<^verbatim>\<open>args.every((arg) => names.includes(arg.constructor.name))\<close>: it stops at the first
  argument whose name is not listed, and throws where the name cannot be read.
\<close>

fun every_includes :: "string list \<Rightarrow> item list \<Rightarrow> error + bool" where
  "every_includes names [] = Inr True"
| "every_includes names (arg # args) =
     (case constructor_name arg of
        Inl e \<Rightarrow> Inl e
      | Inr n \<Rightarrow> if n \<in> set names then every_includes names args else Inr False)"

text \<open>
  \<^verbatim>\<open>console.assert\<close> reports a failed condition and goes on. The first assertion of
  \<^verbatim>\<open>group\<close>, \<^verbatim>\<open>sequence\<close> and \<^verbatim>\<open>play\<close>, that the time is a number, holds of every
  time of the model.
\<close>

type_synonym console = "string list"

definition console_assert :: "bool \<Rightarrow> string \<Rightarrow> console \<Rightarrow> console" where
  "console_assert cond msg con = (if cond then con else con @ [msg])"

text \<open>
  What a call leaves behind: the value it returns or the exception it throws, what it
  reported on the console, and the store.
\<close>

record 'a run =
  returned :: "error + 'a"
  reports :: console
  heap :: store

section \<open>group\<close>

text \<open>The body run on one animation: shift its delay, write the timing back, push it.\<close>

definition group_each :: "rat \<Rightarrow> ref list \<times> store \<Rightarrow> ref \<Rightarrow> ref list \<times> store" where
  "group_each time st anim =
     (case st of (animations, s) \<Rightarrow>
        let timing = getComputedTiming (s anim);
            timing' = timing\<lparr>delay := delay timing + time\<rparr>
        in (animations @ [anim], s(anim := updateTiming (s anim) timing')))"

fun group_loop :: "rat \<Rightarrow> item list \<Rightarrow> ref list \<times> store \<Rightarrow> (error + ref list) \<times> store" where
  "group_loop time [] (animations, s) = (Inr animations, s)"
| "group_loop time (Arr xs # args) st = group_loop time args (foldl (group_each time) st xs)"
| "group_loop time (Anim a # args) st = group_loop time args (group_each time st a)"
| "group_loop time (Str l # args) st = group_loop time args st"
| "group_loop time (Other n # args) st = group_loop time args st"
| "group_loop time (Nullish # args) (animations, s) = (Inl TypeError, s)"

definition group :: "rat \<Rightarrow> item list \<Rightarrow> store \<Rightarrow> (ref list) run" where
  "group time args s =
     (let con = console_assert True [] []
      in case every_includes [''Array'', ''Animation''] args of
           Inl e \<Rightarrow> \<lparr>returned = Inl e, reports = con, heap = s\<rparr>
         | Inr ok \<Rightarrow>
             (case group_loop time args ([], s) of
                (r, s') \<Rightarrow> \<lparr>returned = r, reports = console_assert ok [] con, heap = s'\<rparr>))"

section \<open>sequence\<close>

text \<open>
  The body run on one animation of a nested array. Besides the store and the result list
  it updates two variables of the enclosing call: the array's running maximum
  \<open>dur\<close> and the pending \<open>label\<close>.
\<close>

definition sequence_each ::
  "rat \<Rightarrow> rat \<times> string option \<times> ref list \<times> store \<Rightarrow> ref \<Rightarrow> rat \<times> string option \<times> ref list \<times> store" where
  "sequence_each time st anim =
     (case st of (dur, label, animations, s) \<Rightarrow>
        let timing = getComputedTiming (s anim);
            timing' = timing\<lparr>delay := delay timing + time\<rparr>;
            dur' = max dur (duration timing');
            s1 = s(anim := updateTiming (s anim) timing');
            s2 = s1(anim := set_id label (s1 anim))
        in (dur', None, animations @ [anim], s2))"

fun sequence_loop ::
  "item list \<Rightarrow> rat \<times> string option \<times> ref list \<times> store \<Rightarrow> (error + ref list) \<times> store" where
  "sequence_loop [] (time, label, animations, s) = (Inr animations, s)"
| "sequence_loop (Str l # args) (time, label, animations, s) =
     sequence_loop args (time, Some l, animations, s)"
| "sequence_loop (Arr xs # args) (time, label, animations, s) =
     (case foldl (sequence_each time) (0, label, animations, s) xs of
        (dur, label', animations', s') \<Rightarrow>
          sequence_loop args (time + dur, label', animations', s'))"
| "sequence_loop (Anim a # args) (time, label, animations, s) =
     (let timing = getComputedTiming (s a);
          timing' = timing\<lparr>delay := delay timing + time\<rparr>;
          time' = time + duration timing';
          s1 = s(a := updateTiming (s a) timing');
          s2 = s1(a := set_id label (s1 a))
      in sequence_loop args (time', None, animations @ [a], s2))"
| "sequence_loop (Other n # args) st = sequence_loop args st"
| "sequence_loop (Nullish # args) (time, label, animations, s) = (Inl TypeError, s)"

definition sequence :: "rat \<Rightarrow> item list \<Rightarrow> store \<Rightarrow> (ref list) run" where
  "sequence time args s =
     (let con = console_assert True [] []
      in case every_includes [''Array'', ''Animation'', ''String''] args of
           Inl e \<Rightarrow> \<lparr>returned = Inl e, reports = con, heap = s\<rparr>
         | Inr ok \<Rightarrow>
             (case sequence_loop args (time, None, [], s) of
                (r, s') \<Rightarrow> \<lparr>returned = r, reports = console_assert ok [] con, heap = s'\<rparr>))"

section \<open>Numbers of the host language\<close>

text \<open>
  \<^verbatim>\<open>tween\<close> divides, and the division may be by zero, so its numbers carry the
  non-finite values of the host language. Finite values are exact rationals: rounding and
  the sign of zero are not modelled.
\<close>

datatype jsnum = Num rat | PosInf | NegInf | NaN

fun isNaN :: "jsnum \<Rightarrow> bool" where
  "isNaN NaN = True"
| "isNaN n = False"

fun js_sub :: "jsnum \<Rightarrow> jsnum \<Rightarrow> jsnum" where
  "js_sub NaN b = NaN"
| "js_sub a NaN = NaN"
| "js_sub (Num a) (Num b) = Num (a - b)"
| "js_sub (Num a) PosInf = NegInf"
| "js_sub (Num a) NegInf = PosInf"
| "js_sub PosInf PosInf = NaN"
| "js_sub PosInf b = PosInf"
| "js_sub NegInf NegInf = NaN"
| "js_sub NegInf b = NegInf"

fun js_mul :: "jsnum \<Rightarrow> jsnum \<Rightarrow> jsnum" where
  "js_mul NaN b = NaN"
| "js_mul a NaN = NaN"
| "js_mul (Num a) (Num b) = Num (a * b)"
| "js_mul (Num a) PosInf = (if a = 0 then NaN else if 0 < a then PosInf else NegInf)"
| "js_mul (Num a) NegInf = (if a = 0 then NaN else if 0 < a then NegInf else PosInf)"
| "js_mul PosInf (Num b) = (if b = 0 then NaN else if 0 < b then PosInf else NegInf)"
| "js_mul NegInf (Num b) = (if b = 0 then NaN else if 0 < b then NegInf else PosInf)"
| "js_mul PosInf PosInf = PosInf"
| "js_mul PosInf NegInf = NegInf"
| "js_mul NegInf PosInf = NegInf"
| "js_mul NegInf NegInf = PosInf"

fun js_div :: "jsnum \<Rightarrow> jsnum \<Rightarrow> jsnum" where
  "js_div NaN b = NaN"
| "js_div a NaN = NaN"
| "js_div (Num a) (Num b) =
     (if b = 0 then (if a = 0 then NaN else if 0 < a then PosInf else NegInf)
      else Num (a / b))"
| "js_div (Num a) b = Num 0"
| "js_div PosInf (Num b) = (if 0 \<le> b then PosInf else NegInf)"
| "js_div NegInf (Num b) = (if 0 \<le> b then NegInf else PosInf)"
| "js_div a b = NaN"

text \<open>
  \<^verbatim>\<open>Array.prototype.sort\<close> with a comparison function, as a stable insertion sort: an
  element moves behind its right neighbours while the comparison is positive. A comparison
  that yields \<^verbatim>\<open>NaN\<close> counts as zero, as the language prescribes.
\<close>

fun positive :: "jsnum \<Rightarrow> bool" where
  "positive (Num r) = (0 < r)"
| "positive PosInf = True"
| "positive n = False"

fun insert_by :: "('a \<Rightarrow> 'a \<Rightarrow> jsnum) \<Rightarrow> 'a \<Rightarrow> 'a list \<Rightarrow> 'a list" where
  "insert_by cmp x [] = [x]"
| "insert_by cmp x (y # ys) =
     (if positive (cmp x y) then y # insert_by cmp x ys else x # y # ys)"

definition sort_by :: "('a \<Rightarrow> 'a \<Rightarrow> jsnum) \<Rightarrow> 'a list \<Rightarrow> 'a list" where
  "sort_by cmp xs = foldr (insert_by cmp) xs []"

text \<open>\<^verbatim>\<open>forEach\<close> with the index passed to the callback.\<close>

fun forEach_idx :: "('s \<Rightarrow> 'a \<Rightarrow> nat \<Rightarrow> 's) \<Rightarrow> 's \<Rightarrow> nat \<Rightarrow> 'a list \<Rightarrow> 's" where
  "forEach_idx f st idx [] = st"
| "forEach_idx f st idx (x # xs) = forEach_idx f (f st x idx) (Suc idx) xs"

section \<open>tween\<close>

text \<open>
  The argument of \<^verbatim>\<open>tween\<close> is read through \<^verbatim>\<open>Object.entries\<close>: a list of keys with
  their values, in the object's enumeration order. A key is a string; the code only asks
  what number it reads as, and uses the string itself only when it reads as none. So a key
  is \<open>Time r\<close>, \<open>PlusInfinity\<close> or \<open>MinusInfinity\<close> when it reads as that number, and
  \<open>Name n\<close> when the string \<open>n\<close> reads as no number.
\<close>

datatype key = Time rat | PlusInfinity | MinusInfinity | Name string

fun to_number :: "key \<Rightarrow> jsnum" where
  "to_number (Time r) = Num r"
| "to_number PlusInfinity = PosInf"
| "to_number MinusInfinity = NegInf"
| "to_number (Name n) = NaN"

text \<open>
  The options object starts as
  \<^verbatim>\<open>{ duration: 0, pseudoElement: pseudoElement, fill: 'forwards' }\<close>; a slot holds the
  library's own value until an entry of the caller with that name replaces it, and any
  other name is added. The values of the caller are of a type \<open>'v\<close> the library does not
  look into, but for the number a caller's \<^verbatim>\<open>duration\<close> reads as (\<open>num_of\<close>) when a later
  offset is divided by it.
\<close>

datatype ('a, 'v) slot = Own 'a | Given 'v

record 'v options =
  opt_duration :: "(jsnum, 'v) slot"
  opt_pseudoElement :: "(string option, 'v) slot"
  opt_fill :: "(string, 'v) slot"
  opt_rest :: "string \<rightharpoonup> 'v"

definition set_option :: "string \<Rightarrow> 'v \<Rightarrow> 'v options \<Rightarrow> 'v options" where
  "set_option n data options =
     (if n = ''duration'' then options\<lparr>opt_duration := Given data\<rparr>
      else if n = ''pseudoElement'' then options\<lparr>opt_pseudoElement := Given data\<rparr>
      else if n = ''fill'' then options\<lparr>opt_fill := Given data\<rparr>
      else options\<lparr>opt_rest := (opt_rest options)(n \<mapsto> data)\<rparr>)"

fun slot_number :: "('v \<Rightarrow> jsnum) \<Rightarrow> (jsnum, 'v) slot \<Rightarrow> jsnum" where
  "slot_number num_of (Own n) = n"
| "slot_number num_of (Given v) = num_of v"

text \<open>
  The values of the entries are objects of the caller, held by reference: a value of type
  \<open>'v\<close> is the identity of an object, and two entries with the same value hold the same
  object. The callback writes the \<^verbatim>\<open>offset\<close> into the object and pushes the object, so
  the model keeps the offsets in a map from objects. The map is empty at first: an
  offset an object had before is overwritten before any is read. An object with no
  \<^verbatim>\<open>offset\<close> reads as \<^verbatim>\<open>undefined\<close>, which counts as \<^verbatim>\<open>NaN\<close> in the comparison of
  the last sort.
\<close>

definition offset_of :: "('v \<rightharpoonup> jsnum) \<Rightarrow> 'v \<Rightarrow> jsnum" where
  "offset_of offsets data = (case offsets data of None \<Rightarrow> NaN | Some n \<Rightarrow> n)"

text \<open>
  The callback of \<^verbatim>\<open>forEach\<close>. Its first equation is the branch
  \<^verbatim>\<open>isNaN(timeOrOpts)\<close>, which the keys \<open>Name n\<close> take and no other.
\<close>

fun tween_entry ::
  "('v \<Rightarrow> jsnum) \<Rightarrow> 'v options \<times> 'v list \<times> ('v \<rightharpoonup> jsnum) \<Rightarrow> key \<times> 'v \<Rightarrow> nat \<Rightarrow>
   'v options \<times> 'v list \<times> ('v \<rightharpoonup> jsnum)" where
  "tween_entry num_of (options, keyFrames, offsets) (Name n, data) idx =
     (set_option n data options, keyFrames, offsets)"
| "tween_entry num_of (options, keyFrames, offsets) (timeOrOpts, data) idx =
     (let options' = (if idx = 0
                      then options\<lparr>opt_duration := Own (js_mul (to_number timeOrOpts) (Num 1))\<rparr>
                      else options);
          offset = js_div (to_number timeOrOpts) (slot_number num_of (opt_duration options'))
      in (options', keyFrames @ [data], offsets(data \<mapsto> offset)))"

text \<open>
  \<^verbatim>\<open>tween\<close> up to the construction of the effect: the keyframes and options it hands to
  \<^verbatim>\<open>new KeyframeEffect\<close>, each keyframe with the offset its object holds in the end. The
  element and the two assertions about it play no part in them.
\<close>

definition tween ::
  "('v \<Rightarrow> jsnum) \<Rightarrow> string option \<Rightarrow> (key \<times> 'v) list \<Rightarrow> ('v \<times> jsnum) list \<times> 'v options" where
  "tween num_of pseudoElement tweens =
     (let options = \<lparr>opt_duration = Own (Num 0), opt_pseudoElement = Own pseudoElement,
                     opt_fill = Own ''forwards'', opt_rest = Map.empty\<rparr>;
          entries = sort_by (\<lambda>(keyA, objA) (keyB, objB). js_sub (to_number keyB) (to_number keyA))
                      tweens
      in case forEach_idx (tween_entry num_of) (options, [], Map.empty) 0 entries of
           (options', keyFrames, offsets) \<Rightarrow>
             (map (\<lambda>data. (data, offset_of offsets data))
                (sort_by (\<lambda>a b. js_sub (offset_of offsets a) (offset_of offsets b)) keyFrames),
              options'))"

section \<open>play\<close>

text \<open>
  \<^verbatim>\<open>play\<close> runs in three steps, parted by two promises of the engine: it resolves the
  start and, once every animation is ready, seeks and starts them; it asks the engine for
  a timer; when the timer has finished it stops the animations at the final time and
  resolves with that time. The model follows a run in which the engine keeps both
  promises. What the engine does to the animations until all are ready is the parameter
  \<open>ready\<close>, and what it does to them while the timer runs is the parameter \<open>running\<close>.
  The list \<open>animations\<close> is what \<^verbatim>\<open>this.animations\<close> yields: the engine lists every
  animation once. Such animations have a current time, and \<open>dur\<close> is a finite number.
\<close>

datatype start = NoStart | StartTime rat | StartLabel string

definition resolve_start :: "ref list \<Rightarrow> store \<Rightarrow> start \<Rightarrow> rat option" where
  "resolve_start animations s start =
     (case start of
        StartLabel l \<Rightarrow>
          (case find (\<lambda>a. anim_id (s a) = l) animations of
             None \<Rightarrow> None
           | Some a \<Rightarrow> Some (delay (getComputedTiming (s a))))
      | StartTime t \<Rightarrow> Some t
      | NoStart \<Rightarrow> None)"

text \<open>\<^verbatim>\<open>start ?? animation.currentTime\<close>: the time an animation is seeked to.\<close>

definition seek_value :: "rat option \<Rightarrow> animation \<Rightarrow> rat" where
  "seek_value start a = (case start of Some t \<Rightarrow> t | None \<Rightarrow> currentTime a)"

definition seek_each :: "rat option \<Rightarrow> rat \<times> store \<Rightarrow> ref \<Rightarrow> rat \<times> store" where
  "seek_each start st a =
     (case st of (current, s) \<Rightarrow>
        let t = seek_value start (s a);
            s1 = s(a := (s a)\<lparr>currentTime := t\<rparr>)
        in (t, s1(a := animation_play (s1 a))))"

definition seek :: "rat option \<Rightarrow> ref list \<Rightarrow> store \<Rightarrow> rat \<times> store" where
  "seek start animations s = foldl (seek_each start) (0, s) animations"

definition stop_each :: "rat \<Rightarrow> store \<Rightarrow> ref \<Rightarrow> store" where
  "stop_each t s a = s(a := (animation_pause (s a))\<lparr>currentTime := t\<rparr>)"

text \<open>\<^verbatim>\<open>~~dur\<close>: the number cut to an integer and wrapped to 32 bits, signed.\<close>

definition to_int32 :: "rat \<Rightarrow> int" where
  "to_int32 r =
     (let i = (if 0 \<le> r then \<lfloor>r\<rfloor> else \<lceil>r\<rceil>); m = i mod 2 ^ 32
      in if 2 ^ 31 \<le> m then m - 2 ^ 32 else m)"

record played =
  resolved :: rat
  timer :: rat
  said :: console
  left :: store

definition play ::
  "(store \<Rightarrow> store) \<Rightarrow> (rat \<Rightarrow> store \<Rightarrow> store) \<Rightarrow> ref list \<Rightarrow> rat \<Rightarrow> start \<Rightarrow> store \<Rightarrow> played" where
  "play ready running animations dur start s =
     (let con = console_assert True ''<dur> has to be a number'' [];
          con' = console_assert (0 \<le> to_int32 dur) ''<dur> has to be a positive number'' con;
          start' = resolve_start animations s start
      in case seek start' animations (ready s) of
           (current, s1) \<Rightarrow>
             let wait = \<bar>dur\<bar>;
                 s2 = running wait s1;
                 final = current + dur
             in \<lparr>resolved = final, timer = wait, said = con',
                 left = foldl (stop_each final) s2 animations\<rparr>)"

section \<open>Notions used in the statements\<close>

text \<open>
  An animation as \<^verbatim>\<open>tween\<close> leaves it: paused, no delay, the empty id; and a store of
  them.
\<close>

definition fresh :: "rat \<Rightarrow> animation" where
  "fresh d = \<lparr>effect = \<lparr>delay = 0, duration = d\<rparr>, anim_id = [], currentTime = 0, playing = False\<rparr>"

definition stage :: store where
  "stage = (\<lambda>a. fresh 0)(0 := fresh 500, 1 := fresh 300, 2 := fresh 200)"

text \<open>Two animations under a root: the second is labelled A and starts at 250.\<close>

definition studio :: store where
  "studio = (\<lambda>a. fresh 0)
     (0 := (fresh 500)\<lparr>currentTime := 30\<rparr>,
      1 := \<lparr>effect = \<lparr>delay = 250, duration = 300\<rparr>, anim_id = ''A'',
            currentTime = 70, playing = False\<rparr>)"

text \<open>An animation that has run to its end and stands behind it, at 600 of 500.\<close>

definition finished :: store where
  "finished = (\<lambda>a. fresh 0)(0 := (fresh 500)\<lparr>currentTime := 600\<rparr>)"

definition add_delay :: "rat \<Rightarrow> animation \<Rightarrow> animation" where
  "add_delay d a = a\<lparr>effect := (effect a)\<lparr>delay := delay (effect a) + d\<rparr>\<rparr>"

text \<open>The animations of a list of arguments, one level of arrays opened, in their order.\<close>

fun flatten :: "item list \<Rightarrow> ref list" where
  "flatten [] = []"
| "flatten (Anim a # args) = a # flatten args"
| "flatten (Arr xs # args) = xs @ flatten args"
| "flatten (other # args) = flatten args"

fun effects_only :: "item list \<Rightarrow> bool" where
  "effects_only [] = True"
| "effects_only (Anim a # args) = effects_only args"
| "effects_only (Arr xs # args) = effects_only args"
| "effects_only (other # args) = False"

text \<open>
  The store after a nested array of \<^verbatim>\<open>sequence\<close> on distinct animations: each starts at
  the cursor, the first is assigned the pending label, the others are assigned
  \<^verbatim>\<open>null\<close>.
\<close>

definition started_together :: "rat \<Rightarrow> string option \<Rightarrow> ref list \<Rightarrow> store \<Rightarrow> store" where
  "started_together time label xs s =
     (\<lambda>a. if a \<in> set xs
          then (s a)\<lparr>effect := (effect (s a))\<lparr>delay := delay (effect (s a)) + time\<rparr>,
                      anim_id := DOMString (if a = hd xs then label else None)\<rparr>
          else s a)"

text \<open>An argument that has a constructor whose name is not among the listed ones.\<close>

definition unrecognized :: "string list \<Rightarrow> item \<Rightarrow> bool" where
  "unrecognized names arg =
     (case constructor_name arg of Inl e \<Rightarrow> False | Inr n \<Rightarrow> n \<notin> set names)"

fun time_of :: "key \<Rightarrow> rat" where
  "time_of (Time r) = r"
| "time_of k = 0"

fun nonneg_time :: "key \<Rightarrow> bool" where
  "nonneg_time (Time r) = (0 \<le> r)"
| "nonneg_time k = False"

fun passthrough :: "key \<Rightarrow> bool" where
  "passthrough (Name n) = (n \<noteq> ''duration'')"
| "passthrough k = False"

fun in_unit :: "jsnum \<Rightarrow> bool" where
  "in_unit (Num r) = (0 \<le> r \<and> r \<le> 1)"
| "in_unit n = False"

fun js_le :: "jsnum \<Rightarrow> jsnum \<Rightarrow> bool" where
  "js_le NaN b = False"
| "js_le a NaN = False"
| "js_le (Num a) (Num b) = (a \<le> b)"
| "js_le NegInf b = True"
| "js_le a PosInf = True"
| "js_le a b = False"

fun rat_of :: "jsnum \<Rightarrow> rat" where
  "rat_of (Num r) = r"
| "rat_of n = 0"

fun is_num :: "jsnum \<Rightarrow> bool" where
  "is_num (Num r) = True"
| "is_num n = False"

abbreviation by_key :: "key \<times> 'v \<Rightarrow> key \<times> 'v \<Rightarrow> jsnum" where
  "by_key \<equiv> (\<lambda>(keyA, objA) (keyB, objB). js_sub (to_number keyB) (to_number keyA))"

abbreviation by_offset :: "('v \<rightharpoonup> jsnum) \<Rightarrow> 'v \<Rightarrow> 'v \<Rightarrow> jsnum" where
  "by_offset offsets \<equiv> (\<lambda>a b. js_sub (offset_of offsets a) (offset_of offsets b))"

text \<open>The offsets the callback has written after a run of time entries, all divided by \<open>m\<close>.\<close>

definition written :: "rat \<Rightarrow> ('v \<rightharpoonup> jsnum) \<Rightarrow> (key \<times> 'v) list \<Rightarrow> ('v \<rightharpoonup> jsnum)" where
  "written m offsets xs =
     foldl (\<lambda>offs e. offs(snd e \<mapsto> js_div (Num (time_of (fst e))) (Num m))) offsets xs"

section \<open>group\<close>

lemma console_assert_True [simp]: "console_assert True msg con = con"
  by (simp add: console_assert_def)

lemma console_assert_False [simp]: "console_assert False msg con = con @ [msg]"
  by (simp add: console_assert_def)

lemma DOMString_simps [simp]: "DOMString None = ''null''" "DOMString (Some str) = str"
  by (simp_all add: DOMString_def)

lemma set_id_simps [simp]:
  "anim_id (set_id v a) = DOMString v" "effect (set_id v a) = effect a"
  "currentTime (set_id v a) = currentTime a" "playing (set_id v a) = playing a"
  by (simp_all add: set_id_def)

lemma group_each_pair:
  "group_each t (anims, s) x = (anims @ [x], s(x := add_delay t (s x)))"
  by (simp add: group_each_def getComputedTiming_def updateTiming_def add_delay_def Let_def)

lemma add_delay_0: "add_delay 0 a = a"
  by (simp add: add_delay_def)

lemma add_delay_add: "add_delay d (add_delay e a) = add_delay (e + d) a"
  by (simp add: add_delay_def algebra_simps)

lemma group_each_fold:
  "foldl (group_each t) (anims, s) xs =
     (anims @ xs, \<lambda>a. add_delay (of_nat (count_list xs a) * t) (s a))"
proof (induction xs arbitrary: anims s)
  case Nil
  show ?case by (simp add: add_delay_0)
next
  case (Cons x xs)
  have "(\<lambda>a. add_delay (of_nat (count_list xs a) * t) ((s(x := add_delay t (s x))) a)) =
        (\<lambda>a. add_delay (of_nat (count_list (x # xs) a) * t) (s a))"
    by (rule ext) (simp add: add_delay_add algebra_simps)
  then show ?case
    by (simp add: Cons.IH group_each_pair del: count_list.simps)
qed

lemma group_loop_effects:
  "effects_only args \<Longrightarrow>
   group_loop t args (anims, s) =
     (Inr (anims @ flatten args),
      \<lambda>a. add_delay (of_nat (count_list (flatten args) a) * t) (s a))"
proof (induction args arbitrary: anims s rule: flatten.induct)
  case 1
  show ?case by (simp add: add_delay_0)
next
  case (2 a args)
  have "(\<lambda>b. add_delay (of_nat (count_list (flatten args) b) * t) ((s(a := add_delay t (s a))) b)) =
        (\<lambda>b. add_delay (of_nat (count_list (flatten (Anim a # args)) b) * t) (s b))"
    by (rule ext) (simp add: add_delay_add algebra_simps)
  with 2 show ?case
    by (simp add: group_each_pair del: count_list.simps)
next
  case (3 xs args)
  have "(\<lambda>b. add_delay (of_nat (count_list (flatten args) b) * t)
               (add_delay (of_nat (count_list xs b) * t) (s b))) =
        (\<lambda>b. add_delay (of_nat (count_list (flatten (Arr xs # args)) b) * t) (s b))"
    by (rule ext) (simp add: add_delay_add algebra_simps)
  with 3 show ?case
    by (simp add: group_each_fold del: count_list.simps)
qed simp_all

lemma every_effects:
  "effects_only args \<Longrightarrow> every_includes [''Array'', ''Animation''] args = Inr True"
  by (induction args rule: effects_only.induct) simp_all

lemma group_effects:
  "effects_only args \<Longrightarrow>
   group t args s =
     \<lparr>returned = Inr (flatten args), reports = [],
      heap = (\<lambda>a. add_delay (of_nat (count_list (flatten args) a) * t) (s a))\<rparr>"
  by (simp add: Let_def group_def every_effects group_loop_effects console_assert_def)

text \<open>
  Claim C3, as the code has it. For arguments that are animations or arrays of
  animations, \<^verbatim>\<open>group\<close> returns the flattened list in order of encounter and reports
  nothing; the delay of every animation grows by \<open>t\<close> once for each time the animation
  occurs in that list (so by \<open>t\<close> for an animation passed once, and not at all for one
  not passed); no duration changes; and a second call adds its own shift on top.
\<close>

theorem group_shifts_each_occurrence:
  assumes "effects_only args"
  shows "returned (group t args s) = Inr (flatten args) \<and>
         reports (group t args s) = [] \<and>
         delay (effect (heap (group t args s) a)) =
           delay (effect (s a)) + of_nat (count_list (flatten args) a) * t \<and>
         duration (effect (heap (group t args s) a)) = duration (effect (s a)) \<and>
         delay (effect (heap (group u args (heap (group t args s))) a)) =
           delay (effect (s a)) + of_nat (count_list (flatten args) a) * t
             + of_nat (count_list (flatten args) a) * u"
  using assms by (simp add: group_effects add_delay_def)

theorem group_shifts_each_occurrence_witness:
  "returned (group 50 [Anim 0, Arr [1, 2]] stage) = Inr (flatten [Anim 0, Arr [1, 2]]) \<and>
   reports (group 50 [Anim 0, Arr [1, 2]] stage) = [] \<and>
   delay (effect (heap (group 50 [Anim 0, Arr [1, 2]] stage) 1)) =
     delay (effect (stage 1)) + of_nat (count_list (flatten [Anim 0, Arr [1, 2]]) 1) * 50 \<and>
   duration (effect (heap (group 50 [Anim 0, Arr [1, 2]] stage) 1)) = duration (effect (stage 1)) \<and>
   flatten [Anim 0, Arr [1, 2]] = [0, 1, 2] \<and>
   delay (effect (stage 1)) + of_nat (count_list (flatten [Anim 0, Arr [1, 2]]) 1) * 50 = 50"
proof -
  have h: "effects_only [Anim 0, Arr [1, 2]]" by simp
  have e: "flatten [Anim 0, Arr [1, 2]] = [0, 1, 2] \<and>
           delay (effect (stage 1)) + of_nat (count_list (flatten [Anim 0, Arr [1, 2]]) 1) * 50 = 50"
    by (simp add: stage_def fresh_def)
  from group_shifts_each_occurrence[OF h, of 50 stage 1 0] e show ?thesis by blast
qed

text \<open>
  Claim C3 as it is worded fails when an animation is reachable twice: \<^verbatim>\<open>group(5, e, e)\<close>
  shifts the delay of \<^verbatim>\<open>e\<close> by 10.
\<close>

theorem group_same_effect_twice:
  "delay (effect (heap (group 5 [Anim 0, Anim 0] stage) 0)) = delay (effect (stage 0)) + 10 \<and>
   delay (effect (heap (group 5 [Anim 0, Anim 0] stage) 0)) \<noteq> delay (effect (stage 0)) + 5"
  by (simp add: group_def group_each_def getComputedTiming_def updateTiming_def
      console_assert_def stage_def fresh_def Let_def)

section \<open>sequence\<close>




subsection \<open>A nested array\<close>

lemma sequence_each_pair:
  "sequence_each time (dur, label, anims, s) x =
     (max dur (duration (effect (s x))), None, anims @ [x],
      s(x := (s x)\<lparr>effect := (effect (s x))\<lparr>delay := delay (effect (s x)) + time\<rparr>,
                  anim_id := DOMString label\<rparr>))"
  by (simp add: sequence_each_def getComputedTiming_def updateTiming_def Let_def set_id_def)

lemma sequence_each_fold:
  "distinct xs \<Longrightarrow> xs \<noteq> [] \<Longrightarrow>
   foldl (sequence_each time) (dur, label, anims, s) xs =
     (Max (insert dur ((\<lambda>x. duration (effect (s x))) ` set xs)), None, anims @ xs,
      started_together time label xs s)"
proof (induction xs arbitrary: dur label anims s)
  case Nil
  then show ?case by simp
next
  case (Cons x xs)
  show ?case
  proof (cases "xs = []")
    case True
    then show ?thesis
      by (auto simp add: sequence_each_pair started_together_def fun_eq_iff)
  next
    case False
    define s1 where
      "s1 = s(x := (s x)\<lparr>effect := (effect (s x))\<lparr>delay := delay (effect (s x)) + time\<rparr>,
                         anim_id := DOMString label\<rparr>)"
    define d1 where "d1 = max dur (duration (effect (s x)))"
    have d: "distinct xs" "x \<notin> set xs" using Cons.prems by auto
    have step: "sequence_each time (dur, label, anims, s) x = (d1, None, anims @ [x], s1)"
      by (simp add: sequence_each_pair s1_def d1_def)
    have img: "(\<lambda>a. duration (effect (s1 a))) ` set xs = (\<lambda>a. duration (effect (s a))) ` set xs"
      using d by (intro image_cong) (auto simp add: s1_def)
    have st: "started_together time None xs s1 = started_together time label (x # xs) s"
      using d False by (auto simp add: started_together_def fun_eq_iff s1_def)
    have mx: "Max (insert d1 ((\<lambda>a. duration (effect (s a))) ` set xs)) =
              Max (insert dur ((\<lambda>a. duration (effect (s a))) ` set (x # xs)))"
      using False by (simp add: max.assoc d1_def)
    have "foldl (sequence_each time) (dur, label, anims, s) (x # xs) =
          foldl (sequence_each time) (d1, None, anims @ [x], s1) xs"
      by (simp only: foldl.simps step)
    also have "\<dots> = (Max (insert d1 ((\<lambda>a. duration (effect (s1 a))) ` set xs)), None,
                      (anims @ [x]) @ xs, started_together time None xs s1)"
      by (rule Cons.IH[OF d(1) False])
    also have "\<dots> = (Max (insert dur ((\<lambda>a. duration (effect (s a))) ` set (x # xs))), None,
                      anims @ x # xs, started_together time label (x # xs) s)"
      by (simp only: img st mx append_assoc append_Cons append_Nil)
    finally show ?thesis .
  qed
qed

lemma Max_with_zero:
  assumes "xs \<noteq> []" "\<forall>x\<in>set xs. (0::rat) \<le> f x"
  shows "Max (insert 0 (f ` set xs)) = Max (f ` set xs)"
proof -
  have ne: "f ` set xs \<noteq> {}" using assms(1) by simp
  obtain x where x: "x \<in> set xs" using assms(1) by (cases xs) auto
  have "0 \<le> f x" using assms(2) x by simp
  also have "f x \<le> Max (f ` set xs)" using x by (intro Max_ge) auto
  finally have "0 \<le> Max (f ` set xs)" .
  then show ?thesis using ne by (simp add: max_def)
qed

lemma started_together_Nil: "started_together time label [] s = s"
  by (simp add: started_together_def)

lemma sequence_each_fold_any:
  assumes "distinct xs"
  shows "foldl (sequence_each time) (dur, label, anims, s) xs =
     (Max (insert dur ((\<lambda>x. duration (effect (s x))) ` set xs)),
      (if xs = [] then label else None), anims @ xs, started_together time label xs s)"
proof (cases "xs = []")
  case True
  then show ?thesis by (simp add: started_together_Nil)
next
  case False
  with assms show ?thesis by (simp add: sequence_each_fold)
qed

lemma sequence_each_fold_other:
  "x \<notin> set xs \<Longrightarrow>
   snd (snd (snd (foldl (sequence_each time) (dur, label, anims, s) xs))) x = s x"
proof (induction xs arbitrary: dur label anims s)
  case Nil
  show ?case by simp
next
  case (Cons y xs)
  then show ?case by (simp add: sequence_each_pair)
qed

text \<open>
  Claim C5, as the code has it. For a nested array of distinct animations every
  animation's delay becomes the cursor plus its delay, the first is assigned the pending
  label and the others \<^verbatim>\<open>null\<close>, and the loop goes on with no label pending and the
  cursor moved by the largest of 0 and their durations: the largest of their durations,
  when there is an animation and no duration is negative. For three distinct animations,
  the first two lasting 500 and 300, \<^verbatim>\<open>sequence(0, [e1, e2], e3)\<close> puts \<^verbatim>\<open>e3\<close> at 500
  plus the delay it had.
\<close>

theorem sequence_nested_group:
  "(distinct xs \<longrightarrow>
      sequence_loop (Arr xs # args) (time, label, animations, s) =
      sequence_loop args
        (time + Max (insert 0 ((\<lambda>x. duration (effect (s x))) ` set xs)),
         (if xs = [] then label else None), animations @ xs,
         started_together time label xs s)) \<and>
   (xs \<noteq> [] \<and> (\<forall>x\<in>set xs. 0 \<le> duration (effect (s x))) \<longrightarrow>
      Max (insert 0 ((\<lambda>x. duration (effect (s x))) ` set xs)) =
      Max ((\<lambda>x. duration (effect (s x))) ` set xs)) \<and>
   (distinct [e1, e2, e3] \<and> duration (effect (s e1)) = 500 \<and> duration (effect (s e2)) = 300 \<longrightarrow>
      delay (effect (heap (sequence 0 [Arr [e1, e2], Anim e3] s) e3)) =
        500 + delay (effect (s e3)))"
proof (intro conjI impI)
  assume a: "distinct xs"
  have f: "foldl (sequence_each time) (0, label, animations, s) xs =
      (Max (insert 0 ((\<lambda>x. duration (effect (s x))) ` set xs)),
       (if xs = [] then label else None), animations @ xs,
       started_together time label xs s)"
    by (rule sequence_each_fold_any[OF a])
  show "sequence_loop (Arr xs # args) (time, label, animations, s) =
      sequence_loop args
        (time + Max (insert 0 ((\<lambda>x. duration (effect (s x))) ` set xs)),
         (if xs = [] then label else None), animations @ xs,
         started_together time label xs s)"
    by (simp only: sequence_loop.simps f prod.case)
next
  assume "xs \<noteq> [] \<and> (\<forall>x\<in>set xs. 0 \<le> duration (effect (s x)))"
  then show "Max (insert 0 ((\<lambda>x. duration (effect (s x))) ` set xs)) =
      Max ((\<lambda>x. duration (effect (s x))) ` set xs)"
    by (intro Max_with_zero) simp_all
next
  assume "distinct [e1, e2, e3] \<and> duration (effect (s e1)) = 500 \<and> duration (effect (s e2)) = 300"
  then show "delay (effect (heap (sequence 0 [Arr [e1, e2], Anim e3] s) e3)) =
        500 + delay (effect (s e3))"
    by (simp add: sequence_def sequence_each_pair getComputedTiming_def updateTiming_def
        Let_def set_id_def)
qed

theorem sequence_nested_group_witness:
  "sequence_loop (Arr [0, 1] # [Anim 2]) (40, Some ''A'', [], stage) =
     sequence_loop [Anim 2]
       (40 + Max (insert 0 ((\<lambda>x. duration (effect (stage x))) ` set [0, 1])),
        (if [0::nat, 1] = [] then Some ''A'' else None), [] @ [0, 1],
        started_together 40 (Some ''A'') [0, 1] stage) \<and>
   Max (insert 0 ((\<lambda>x. duration (effect (stage x))) ` set [0, 1])) =
     Max ((\<lambda>x. duration (effect (stage x))) ` set [0, 1]) \<and>
   delay (effect (heap (sequence 0 [Arr [0, 1], Anim 2] stage) 2)) =
     500 + delay (effect (stage 2)) \<and>
   Max ((\<lambda>x. duration (effect (stage x))) ` set [0, 1]) = 500 \<and>
   delay (effect (stage 2)) = 0 \<and>
   delay (effect (started_together 40 (Some ''A'') [0, 1] stage 1)) = 40 \<and>
   anim_id (started_together 40 (Some ''A'') [0, 1] stage 0) = ''A'' \<and>
   anim_id (started_together 40 (Some ''A'') [0, 1] stage 1) = ''null''"
proof -
  have h1: "distinct [0::nat, 1]" by simp
  have h2: "[0::nat, 1] \<noteq> [] \<and> (\<forall>x\<in>set [0, 1]. 0 \<le> duration (effect (stage x)))"
    by (simp add: stage_def fresh_def)
  have h3: "distinct [0::nat, 1, 2] \<and> duration (effect (stage 0)) = 500 \<and>
            duration (effect (stage 1)) = 300"
    by (simp add: stage_def fresh_def)
  have e: "Max ((\<lambda>x. duration (effect (stage x))) ` set [0, 1]) = 500 \<and>
           delay (effect (stage 2)) = 0 \<and>
           delay (effect (started_together 40 (Some ''A'') [0, 1] stage 1)) = 40 \<and>
           anim_id (started_together 40 (Some ''A'') [0, 1] stage 0) = ''A'' \<and>
           anim_id (started_together 40 (Some ''A'') [0, 1] stage 1) = ''null''"
    by (simp add: started_together_def stage_def fresh_def DOMString_def)
  from sequence_nested_group
         [where xs = "[0, 1]" and args = "[Anim 2]" and time = 40 and label = "Some ''A''"
            and animations = "[]" and s = stage and ?e1.0 = 0 and ?e2.0 = 1 and ?e3.0 = 2]
       h1 h2 h3 e
  show ?thesis by blast
qed

text \<open>
  Claim C5 as it is worded fails when the array holds an animation twice:
  \<^verbatim>\<open>sequence(100, 'A', [e, e])\<close> leaves \<^verbatim>\<open>e\<close>, whose delay was 0, with delay 200 and
  without the label: its id reads as the string \<^verbatim>\<open>null\<close>.
\<close>

theorem sequence_group_same_effect_twice:
  "delay (effect (heap (sequence 100 [Str ''A'', Arr [0, 0]] stage) 0)) = 200 \<and>
   delay (effect (stage 0)) = 0 \<and>
   anim_id (heap (sequence 100 [Str ''A'', Arr [0, 0]] stage) 0) = ''null''"
  by (simp add: Let_def sequence_def sequence_each_pair console_assert_def stage_def fresh_def
      DOMString_def)

section \<open>Arguments that are passed over\<close>

lemma every_includes_total:
  "Nullish \<notin> set args \<Longrightarrow> \<exists>b. every_includes names args = Inr b"
proof (induction args)
  case Nil
  show ?case by auto
next
  case (Cons a args)
  then show ?case by (cases a) auto
qed

lemma every_includes_unrecognized:
  "Nullish \<notin> set xs \<Longrightarrow> unrecognized names arg \<Longrightarrow>
   every_includes names (xs @ arg # ys) = Inr False"
proof (induction xs)
  case Nil
  then show ?case by (cases arg) (simp_all add: unrecognized_def)
next
  case (Cons a xs)
  then show ?case by (cases a) auto
qed

lemma every_includes_recognized:
  "constructor_name arg = Inr n \<Longrightarrow> n \<in> set names \<Longrightarrow>
   every_includes names (xs @ arg # ys) = every_includes names (xs @ ys)"
  by (induction xs) (auto split: sum.splits)

lemma group_loop_skip:
  assumes "\<And>st. group_loop t (arg # ys) st = group_loop t ys st"
  shows "group_loop t (xs @ arg # ys) st = group_loop t (xs @ ys) st"
proof (induction xs arbitrary: st)
  case Nil
  show ?case by (simp add: assms)
next
  case (Cons a xs)
  obtain anims s where st: "st = (anims, s)" by (cases st)
  show ?case by (cases a) (simp_all add: Cons.IH st)
qed

lemma sequence_loop_skip:
  assumes "\<And>st. sequence_loop (arg # ys) st = sequence_loop ys st"
  shows "sequence_loop (xs @ arg # ys) st = sequence_loop (xs @ ys) st"
proof (induction xs arbitrary: st)
  case Nil
  show ?case by (simp add: assms)
next
  case (Cons a xs)
  obtain time label anims s where st: "st = (time, label, anims, s)" by (cases st)
  show ?case by (cases a) (simp_all add: Cons.IH st Let_def split: prod.split)
qed

lemma sequence_loop_empty_array: "sequence_loop (Arr [] # ys) st = sequence_loop ys st"
  by (cases st) simp

lemma group_loop_unrecognized:
  "unrecognized [''Array'', ''Animation''] arg \<Longrightarrow>
   group_loop t (arg # ys) st = group_loop t ys st"
  by (cases arg) (simp_all add: unrecognized_def)

lemma sequence_loop_unrecognized:
  "unrecognized [''Array'', ''Animation'', ''String''] arg \<Longrightarrow>
   sequence_loop (arg # ys) st = sequence_loop ys st"
  by (cases arg) (simp_all add: unrecognized_def)

text \<open>
  Claim C8, as the code has it. An argument that has a constructor, of a name the
  function does not list, leaves the loop's state as it is: nothing is appended, the cursor
  and the pending label stay. Among arguments none of which is \<^verbatim>\<open>null\<close> or
  \<^verbatim>\<open>undefined\<close>, a call with such an argument returns what the call without it returns and
  leaves the same store, and reports one failed assertion.
\<close>

theorem unrecognized_item_skipped:
  "(unrecognized [''Array'', ''Animation''] arg \<longrightarrow>
      group_loop t (arg # args) (animations, s) = group_loop t args (animations, s)) \<and>
   (unrecognized [''Array'', ''Animation'', ''String''] arg \<longrightarrow>
      sequence_loop (arg # args) (time, label, animations, s) =
      sequence_loop args (time, label, animations, s)) \<and>
   (unrecognized [''Array'', ''Animation''] arg \<and> Nullish \<notin> set xs \<and> Nullish \<notin> set ys \<longrightarrow>
      group t (xs @ arg # ys) s = (group t (xs @ ys) s)\<lparr>reports := [[]]\<rparr>) \<and>
   (unrecognized [''Array'', ''Animation'', ''String''] arg \<and> Nullish \<notin> set xs \<and>
    Nullish \<notin> set ys \<longrightarrow>
      sequence t (xs @ arg # ys) s = (sequence t (xs @ ys) s)\<lparr>reports := [[]]\<rparr>)"
proof (intro conjI impI)
  assume "unrecognized [''Array'', ''Animation''] arg"
  then show "group_loop t (arg # args) (animations, s) = group_loop t args (animations, s)"
    by (rule group_loop_unrecognized)
next
  assume "unrecognized [''Array'', ''Animation'', ''String''] arg"
  then show "sequence_loop (arg # args) (time, label, animations, s) =
      sequence_loop args (time, label, animations, s)"
    by (rule sequence_loop_unrecognized)
next
  assume a: "unrecognized [''Array'', ''Animation''] arg \<and> Nullish \<notin> set xs \<and> Nullish \<notin> set ys"
  then have "Nullish \<notin> set (xs @ ys)" by simp
  then obtain b where b: "every_includes [''Array'', ''Animation''] (xs @ ys) = Inr b"
    using every_includes_total by blast
  have e: "every_includes [''Array'', ''Animation''] (xs @ arg # ys) = Inr False"
    using a by (simp add: every_includes_unrecognized)
  have l: "group_loop t (xs @ arg # ys) ([], s) = group_loop t (xs @ ys) ([], s)"
    using a by (intro group_loop_skip group_loop_unrecognized) simp
  show "group t (xs @ arg # ys) s = (group t (xs @ ys) s)\<lparr>reports := [[]]\<rparr>"
    by (simp add: Let_def group_def b e l console_assert_def split: prod.split)
next
  assume a: "unrecognized [''Array'', ''Animation'', ''String''] arg \<and> Nullish \<notin> set xs \<and>
             Nullish \<notin> set ys"
  then have "Nullish \<notin> set (xs @ ys)" by simp
  then obtain b where b: "every_includes [''Array'', ''Animation'', ''String''] (xs @ ys) = Inr b"
    using every_includes_total by blast
  have e: "every_includes [''Array'', ''Animation'', ''String''] (xs @ arg # ys) = Inr False"
    using a by (simp add: every_includes_unrecognized)
  have l: "sequence_loop (xs @ arg # ys) (t, None, [], s) = sequence_loop (xs @ ys) (t, None, [], s)"
    using a by (intro sequence_loop_skip sequence_loop_unrecognized) simp
  show "sequence t (xs @ arg # ys) s = (sequence t (xs @ ys) s)\<lparr>reports := [[]]\<rparr>"
    by (simp add: Let_def sequence_def b e l console_assert_def split: prod.split)
qed

theorem unrecognized_item_skipped_witness:
  "unrecognized [''Array'', ''Animation''] (Str ''A'') \<and>
   unrecognized [''Array'', ''Animation'', ''String''] (Other ''Number'') \<and>
   group 5 ([Anim 0] @ Str ''A'' # [Anim 1]) stage = (group 5 ([Anim 0] @ [Anim 1]) stage)\<lparr>reports := [[]]\<rparr> \<and>
   sequence 5 ([Str ''A''] @ Other ''Number'' # [Anim 1]) stage =
     (sequence 5 ([Str ''A''] @ [Anim 1]) stage)\<lparr>reports := [[]]\<rparr> \<and>
   returned (sequence 5 [Str ''A'', Other ''Number'', Anim 1] stage) = Inr [1] \<and>
   anim_id (heap (sequence 5 [Str ''A'', Other ''Number'', Anim 1] stage) 1) = ''A'' \<and>
   delay (effect (heap (sequence 5 [Str ''A'', Other ''Number'', Anim 1] stage) 1)) = 5"
proof -
  have h1: "unrecognized [''Array'', ''Animation''] (Str ''A'')"
    by (simp add: unrecognized_def)
  have h2: "unrecognized [''Array'', ''Animation'', ''String''] (Other ''Number'')"
    by (simp add: unrecognized_def)
  have g: "group 5 ([Anim 0] @ Str ''A'' # [Anim 1]) stage =
           (group 5 ([Anim 0] @ [Anim 1]) stage)\<lparr>reports := [[]]\<rparr>"
    using unrecognized_item_skipped[of "Str ''A''" 5 "[]" "[]" stage 0 None "[Anim 0]" "[Anim 1]"] h1
    by (simp del: append.simps)
  have q: "sequence 5 ([Str ''A''] @ Other ''Number'' # [Anim 1]) stage =
           (sequence 5 ([Str ''A''] @ [Anim 1]) stage)\<lparr>reports := [[]]\<rparr>"
    using unrecognized_item_skipped[of "Other ''Number''" 5 "[]" "[]" stage 0 None "[Str ''A'']" "[Anim 1]"] h2
    by (simp del: append.simps)
  have r: "returned (sequence 5 [Str ''A'', Other ''Number'', Anim 1] stage) = Inr [1] \<and>
   anim_id (heap (sequence 5 [Str ''A'', Other ''Number'', Anim 1] stage) 1) = ''A'' \<and>
   delay (effect (heap (sequence 5 [Str ''A'', Other ''Number'', Anim 1] stage) 1)) = 5"
    by (simp add: sequence_def getComputedTiming_def updateTiming_def Let_def stage_def fresh_def)
  from h1 h2 g q r show ?thesis by blast
qed

text \<open>
  Claim C8 as it is worded fails on \<^verbatim>\<open>null\<close> and \<^verbatim>\<open>undefined\<close>, which are of none of
  the recognized kinds either: \<^verbatim>\<open>group(5, x, null, y)\<close> throws a TypeError while the
  assertion is evaluated, before any argument is processed and with nothing reported.
\<close>

theorem group_nullish_throws:
  "group 5 [Anim 0, Nullish, Anim 1] stage =
     \<lparr>returned = Inl TypeError, reports = [], heap = stage\<rparr> \<and>
   sequence 5 [Anim 0, Nullish, Anim 1] stage =
     \<lparr>returned = Inl TypeError, reports = [], heap = stage\<rparr>"
  by (simp add: Let_def group_def sequence_def)

lemma label_after_empty_array:
  assumes "x \<notin> set xs"
  shows "anim_id (heap (sequence t [Str l, Arr [], Arr (x # xs)] s) x) = l"
proof -
  define s1 where
    "s1 = s(x := (s x)\<lparr>effect := (effect (s x))\<lparr>delay := delay (effect (s x)) + t\<rparr>,
                       anim_id := l\<rparr>)"
  obtain d lb an s2 where
    f: "foldl (sequence_each t) (max 0 (duration (effect (s x))), None, [x], s1) xs = (d, lb, an, s2)"
    by (metis prod_cases4)
  have "s2 x = s1 x"
    using sequence_each_fold_other[OF assms, of t "max 0 (duration (effect (s x)))" None "[x]" s1] f
    by simp
  then have "anim_id (s2 x) = l" by (simp add: s1_def)
  then show ?thesis
    using f by (simp add: sequence_def Let_def sequence_each_pair s1_def)
qed

text \<open>
  Claim C9. An empty nested array leaves the loop's state of \<^verbatim>\<open>sequence\<close> as it is:
  the cursor, the pending label, the result list and the store. So a call with an empty
  array among its arguments is the call without it, and a label set before the empty array
  goes to the first animation of the item after it: to that animation, or to the first of
  that array (which does not hold it a second time).
\<close>

theorem empty_group_is_passed_over:
  "sequence_loop (Arr [] # args) (time, label, animations, s) =
     sequence_loop args (time, label, animations, s) \<and>
   sequence t (xs @ Arr [] # ys) s = sequence t (xs @ ys) s \<and>
   anim_id (heap (sequence t [Str l, Arr [], Anim x] s) x) = l \<and>
   delay (effect (heap (sequence t [Str l, Arr [], Anim x] s) x)) = delay (effect (s x)) + t \<and>
   (x \<notin> set zs \<longrightarrow> anim_id (heap (sequence t [Str l, Arr [], Arr (x # zs)] s) x) = l)"
proof (intro conjI impI)
  show "sequence_loop (Arr [] # args) (time, label, animations, s) =
     sequence_loop args (time, label, animations, s)" by simp
  have e: "every_includes [''Array'', ''Animation'', ''String''] (xs @ Arr [] # ys) =
           every_includes [''Array'', ''Animation'', ''String''] (xs @ ys)"
    by (rule every_includes_recognized[where n = "''Array''"]) simp_all
  have l: "sequence_loop (xs @ Arr [] # ys) (t, None, [], s) =
           sequence_loop (xs @ ys) (t, None, [], s)"
    by (intro sequence_loop_skip sequence_loop_empty_array)
  show "sequence t (xs @ Arr [] # ys) s = sequence t (xs @ ys) s"
    by (simp add: Let_def sequence_def e l split: sum.split)
  show "anim_id (heap (sequence t [Str l, Arr [], Anim x] s) x) = l"
    by (simp add: sequence_def getComputedTiming_def updateTiming_def Let_def)
  show "delay (effect (heap (sequence t [Str l, Arr [], Anim x] s) x)) = delay (effect (s x)) + t"
    by (simp add: sequence_def getComputedTiming_def updateTiming_def Let_def)
next
  assume "x \<notin> set zs"
  then show "anim_id (heap (sequence t [Str l, Arr [], Arr (x # zs)] s) x) = l"
    by (rule label_after_empty_array)
qed

theorem empty_group_is_passed_over_witness:
  "sequence 7 ([Str ''A''] @ Arr [] # [Anim 0, Anim 1]) stage =
     sequence 7 ([Str ''A''] @ [Anim 0, Anim 1]) stage \<and>
   anim_id (heap (sequence 7 [Str ''A'', Arr [], Anim 0] stage) 0) = ''A'' \<and>
   delay (effect (heap (sequence 7 [Str ''A'', Arr [], Anim 0] stage) 0)) =
     delay (effect (stage 0)) + 7 \<and>
   anim_id (heap (sequence 7 [Str ''A'', Arr [], Arr (0 # [1])] stage) 0) = ''A'' \<and>
   delay (effect (stage 0)) = 0"
proof -
  have h: "(0::nat) \<notin> set [1]" by simp
  have e: "delay (effect (stage 0)) = 0" by (simp add: stage_def fresh_def)
  from empty_group_is_passed_over
         [where args = "[]" and time = 0 and label = None and animations = "[]" and s = stage
            and t = 7 and xs = "[Str ''A'']" and ys = "[Anim 0, Anim 1]" and l = "''A''"
            and x = 0 and zs = "[1]"] h e
  show ?thesis by blast
qed

section \<open>tween: duration and offsets\<close>

subsection \<open>What the two sorts do\<close>

text \<open>\<^verbatim>\<open>isNaN(timeOrOpts)\<close> holds of the keys \<open>Name n\<close> and of no other.\<close>

lemma isNaN_to_number: "isNaN (to_number k) = (\<exists>n. k = Name n)"
  by (cases k) simp_all

lemma js_sub_NaN_right: "js_sub a NaN = NaN"
  by (cases a) simp_all

lemma insert_name: "insert_by by_key (Name n, d) ys = (Name n, d) # ys"
  by (cases ys) (auto simp add: js_sub_NaN_right)

lemma sort_names:
  "\<forall>e\<in>set os. passthrough (fst e) \<Longrightarrow> foldr (insert_by by_key) os [] = os"
proof (induction os)
  case Nil
  show ?case by simp
next
  case (Cons e os)
  obtain k d where e: "e = (k, d)" by (cases e)
  with Cons.prems obtain n where "k = Name n" by (cases k) auto
  with Cons e show ?case by (simp add: insert_name)
qed

lemma insert_time_before_names:
  assumes "\<forall>e\<in>set os. passthrough (fst e)"
  shows "insert_by by_key (Time r, d) (S @ os) = insert_by by_key (Time r, d) S @ os"
proof (induction S)
  case Nil
  show ?case
  proof (cases os)
    case Nil
    then show ?thesis by simp
  next
    case (Cons e os')
    obtain k v where e: "e = (k, v)" by (cases e)
    with assms Cons obtain n where "k = Name n" by (cases k) auto
    with Cons e show ?thesis by simp
  qed
next
  case (Cons a S)
  then show ?case by simp
qed

text \<open>On finite times the comparison is a linear order, and the sort is the library's.\<close>

lemma insert_time_is_insort:
  assumes "\<forall>e\<in>set S. nonneg_time (fst e)"
  shows "insert_by by_key (Time r, d) S = insort_key (\<lambda>e. - time_of (fst e)) (Time r, d) S"
  using assms
proof (induction S)
  case Nil
  show ?case by simp
next
  case (Cons a S)
  obtain k v where a: "a = (k, v)" by (cases a)
  with Cons.prems obtain q where "k = Time q" by (cases k) auto
  with Cons a show ?case by auto
qed

lemma sort_times:
  assumes "\<forall>e\<in>set ts. nonneg_time (fst e)"
  shows "foldr (insert_by by_key) ts [] = sort_key (\<lambda>e. - time_of (fst e)) ts"
  using assms
proof (induction ts)
  case Nil
  show ?case by simp
next
  case (Cons e ts)
  obtain k d where e: "e = (k, d)" by (cases e)
  with Cons.prems obtain r where k: "k = Time r" by (cases k) auto
  have "\<forall>x\<in>set (sort_key (\<lambda>e. - time_of (fst e)) ts). nonneg_time (fst x)"
    using Cons.prems by simp
  then show ?case using Cons e k by (simp add: insert_time_is_insort)
qed

lemma sort_entries:
  assumes "\<forall>e\<in>set ts. nonneg_time (fst e)" "\<forall>e\<in>set os. passthrough (fst e)"
  shows "sort_by by_key (ts @ os) = sort_key (\<lambda>e. - time_of (fst e)) ts @ os"
proof -
  have "foldr (insert_by by_key) ts os = foldr (insert_by by_key) ts [] @ os"
    using assms(1)
  proof (induction ts)
    case Nil
    show ?case by simp
  next
    case (Cons e ts)
    obtain k d where e: "e = (k, d)" by (cases e)
    with Cons.prems obtain r where k: "k = Time r" by (cases k) auto
    from Cons e k show ?case by (simp add: insert_time_before_names[OF assms(2)])
  qed
  then show ?thesis
    by (simp add: sort_by_def sort_names[OF assms(2)] sort_times[OF assms(1)])
qed

lemma insert_offset_is_insort:
  assumes "\<forall>d\<in>set S. is_num (offset_of offs d)" "is_num (offset_of offs x)"
  shows "insert_by (by_offset offs) x S = insort_key (\<lambda>d. rat_of (offset_of offs d)) x S"
  using assms
proof (induction S)
  case Nil
  show ?case by simp
next
  case (Cons a S)
  obtain q where a: "offset_of offs a = Num q"
    using Cons.prems by (cases "offset_of offs a") auto
  obtain r where x: "offset_of offs x = Num r"
    using Cons.prems by (cases "offset_of offs x") auto
  from Cons a x show ?case by auto
qed

lemma sort_offsets:
  assumes "\<forall>d\<in>set kfs. is_num (offset_of offs d)"
  shows "sort_by (by_offset offs) kfs = sort_key (\<lambda>d. rat_of (offset_of offs d)) kfs"
  unfolding sort_by_def using assms
proof (induction kfs)
  case Nil
  show ?case by simp
next
  case (Cons x kfs)
  have "\<forall>d\<in>set (sort_key (\<lambda>d. rat_of (offset_of offs d)) kfs). is_num (offset_of offs d)"
    using Cons.prems by simp
  then show ?case using Cons by (simp add: insert_offset_is_insort)
qed

lemma sorted_offsets_js_le:
  assumes "sorted (map (\<lambda>d. rat_of (offset_of offs d)) xs)"
    "\<forall>d\<in>set xs. is_num (offset_of offs d)"
  shows "sorted_wrt (\<lambda>a b. js_le (snd a) (snd b)) (map (\<lambda>d. (d, offset_of offs d)) xs)"
proof -
  have "sorted_wrt (\<lambda>a b. rat_of (offset_of offs a) \<le> rat_of (offset_of offs b)) xs"
    using assms(1) by (simp add: sorted_map)
  moreover have "\<And>a b. a \<in> set xs \<Longrightarrow> b \<in> set xs \<Longrightarrow>
      rat_of (offset_of offs a) \<le> rat_of (offset_of offs b) \<Longrightarrow>
      js_le (offset_of offs a) (offset_of offs b)"
  proof -
    fix a b assume "a \<in> set xs" "b \<in> set xs"
      and le: "rat_of (offset_of offs a) \<le> rat_of (offset_of offs b)"
    then obtain q r where "offset_of offs a = Num q" "offset_of offs b = Num r"
      using assms(2) by (metis is_num.elims(2))
    with le show "js_le (offset_of offs a) (offset_of offs b)" by simp
  qed
  ultimately have "sorted_wrt (\<lambda>a b. js_le (offset_of offs a) (offset_of offs b)) xs"
    by (rule sorted_wrt_mono_rel[rotated])
  then show ?thesis by (simp add: sorted_wrt_map)
qed

lemma set_insert_by: "set (insert_by cmp x ys) = insert x (set ys)"
  by (induction ys) auto

lemma set_sort_by: "set (sort_by cmp xs) = set xs"
  by (induction xs) (simp_all add: sort_by_def set_insert_by)

text \<open>The entry that sorts first carries the largest time.\<close>

lemma sorted_times_head:
  assumes "ts \<noteq> []" "\<forall>e\<in>set ts. nonneg_time (fst e)"
  shows "\<exists>d S. sort_key (\<lambda>e. - time_of (fst e)) ts = (Time (Max (time_of ` fst ` set ts)), d) # S"
proof -
  let ?f = "\<lambda>e::key \<times> 'a. - time_of (fst e)"
  let ?S = "sort_key ?f ts"
  have ne: "?S \<noteq> []" using assms(1) by (metis length_sort length_0_conv)
  then obtain e S where S: "?S = e # S" by (cases ?S) auto
  have set: "set ?S = set ts" by simp
  have srt: "sorted (map ?f ?S)" by (rule sorted_sort_key)
  have e_in: "e \<in> set ts" using S set by (metis list.set_intros(1))
  have le: "\<forall>x\<in>set ts. time_of (fst x) \<le> time_of (fst e)"
  proof
    fix x assume "x \<in> set ts"
    then have "x \<in> set (e # S)" using S set by simp
    then show "time_of (fst x) \<le> time_of (fst e)"
      using srt unfolding S by auto
  qed
  have "Max (time_of ` fst ` set ts) = time_of (fst e)"
  proof (rule Max_eqI)
    show "finite (time_of ` fst ` set ts)" by simp
    show "\<And>y. y \<in> time_of ` fst ` set ts \<Longrightarrow> y \<le> time_of (fst e)" using le by auto
    show "time_of (fst e) \<in> time_of ` fst ` set ts" using e_in by auto
  qed
  moreover obtain r where "fst e = Time r" using e_in assms(2) by (cases "fst e") auto
  ultimately have "e = (Time (Max (time_of ` fst ` set ts)), snd e)"
    by (cases e) simp
  with S show ?thesis by metis
qed

subsection \<open>What the callback does along the sorted entries\<close>

lemma forEach_idx_append:
  "forEach_idx f st i (xs @ ys) = forEach_idx f (forEach_idx f st i xs) (i + length xs) ys"
  by (induction xs arbitrary: st i) simp_all

lemma written_Cons:
  "written m offs (e # xs) =
     written m (offs(snd e \<mapsto> js_div (Num (time_of (fst e))) (Num m))) xs"
  by (simp add: written_def)

lemma written_Nil: "written m offs [] = offs"
  by (simp add: written_def)

lemma forEach_later_times:
  "\<forall>e\<in>set xs. nonneg_time (fst e) \<Longrightarrow> 0 < idx \<Longrightarrow> opt_duration opts = Own (Num m) \<Longrightarrow>
   forEach_idx (tween_entry num_of) (opts, kfs, offs) idx xs =
     (opts, kfs @ map snd xs, written m offs xs)"
proof (induction xs arbitrary: kfs offs idx)
  case Nil
  show ?case by (simp add: written_Nil)
next
  case (Cons e xs)
  obtain k d where e: "e = (k, d)" by (cases e)
  with Cons.prems obtain r where k: "k = Time r" by (cases k) auto
  from Cons e k show ?case by (simp add: written_Cons)
qed

lemma forEach_names:
  "\<forall>e\<in>set os. passthrough (fst e) \<Longrightarrow>
   snd (forEach_idx (tween_entry num_of) (opts, kfs, offs) idx os) = (kfs, offs) \<and>
   opt_duration (fst (forEach_idx (tween_entry num_of) (opts, kfs, offs) idx os)) =
     opt_duration opts"
proof (induction os arbitrary: opts idx)
  case Nil
  show ?case by simp
next
  case (Cons e os)
  obtain k d where e: "e = (k, d)" by (cases e)
  with Cons.prems obtain n where k: "k = Name n" "n \<noteq> ''duration''" by (cases k) auto
  have "opt_duration (set_option n d opts) = opt_duration opts"
    using k by (simp add: set_option_def)
  with Cons e k show ?case by simp
qed

text \<open>
  What an object holds in the end: the offset of an entry that holds it, and of the one
  entry that holds it when no other does.
\<close>

lemma written_other: "d \<notin> snd ` set xs \<Longrightarrow> written m offs xs d = offs d"
  by (induction xs arbitrary: offs) (auto simp add: written_Nil written_Cons)

lemma written_some:
  "d \<in> snd ` set xs \<Longrightarrow>
   \<exists>e\<in>set xs. snd e = d \<and> written m offs xs d = Some (js_div (Num (time_of (fst e))) (Num m))"
proof (induction xs arbitrary: offs)
  case Nil
  then show ?case by simp
next
  case (Cons e xs)
  show ?case
  proof (cases "d \<in> snd ` set xs")
    case True
    then obtain e' where "e' \<in> set xs" "snd e' = d"
      "written m (offs(snd e \<mapsto> js_div (Num (time_of (fst e))) (Num m))) xs d =
         Some (js_div (Num (time_of (fst e'))) (Num m))"
      using Cons.IH by blast
    then show ?thesis by (auto simp add: written_Cons)
  next
    case False
    with Cons.prems have d: "d = snd e" by auto
    have "written m (offs(snd e \<mapsto> js_div (Num (time_of (fst e))) (Num m))) xs d =
          Some (js_div (Num (time_of (fst e))) (Num m))"
      using written_other[OF False] d by simp
    then show ?thesis using d by (auto simp add: written_Cons)
  qed
qed

lemma written_distinct:
  assumes "distinct (map snd xs)" "e \<in> set xs"
  shows "written m offs xs (snd e) = Some (js_div (Num (time_of (fst e))) (Num m))"
proof -
  have "snd e \<in> snd ` set xs" using assms(2) by (rule imageI)
  then have "\<exists>e'\<in>set xs. snd e' = snd e \<and>
      written m offs xs (snd e) = Some (js_div (Num (time_of (fst e'))) (Num m))"
    by (rule written_some)
  then obtain e' where e': "e' \<in> set xs" "snd e' = snd e"
    "written m offs xs (snd e) = Some (js_div (Num (time_of (fst e'))) (Num m))"
    by (elim bexE conjE)
  have inj: "inj_on snd (set xs)" using assms(1) by (simp add: distinct_map)
  have "e' = e" by (rule inj_onD[OF inj e'(2) e'(1) assms(2)])
  with e'(3) show ?thesis by simp
qed

lemma tween_frames:
  assumes "ts \<noteq> []" "\<forall>e\<in>set ts. nonneg_time (fst e)" "\<forall>e\<in>set os. passthrough (fst e)"
  defines "M \<equiv> Max (time_of ` fst ` set ts)"
  defines "S \<equiv> sort_key (\<lambda>e. - time_of (fst e)) ts"
  shows "opt_duration (snd (tween num_of pe (ts @ os))) = Own (Num M)"
    and "fst (tween num_of pe (ts @ os)) =
           map (\<lambda>d. (d, offset_of (written M Map.empty S) d))
             (sort_by (by_offset (written M Map.empty S)) (map snd S))"
proof -
  obtain d S' where S: "S = (Time M, d) # S'"
    using sorted_times_head[OF assms(1,2)] unfolding M_def S_def by blast
  have Sset: "\<forall>e\<in>set S'. nonneg_time (fst e)"
  proof
    fix e assume "e \<in> set S'"
    then have "e \<in> set (sort_key (\<lambda>e. - time_of (fst e)) ts)" using S by (simp add: S_def)
    then show "nonneg_time (fst e)" using assms(2) by simp
  qed
  define o0 :: "'a options" where
    "o0 = \<lparr>opt_duration = Own (Num 0), opt_pseudoElement = Own pe,
           opt_fill = Own ''forwards'', opt_rest = Map.empty\<rparr>"
  define o1 where "o1 = o0\<lparr>opt_duration := Own (Num M)\<rparr>"
  define offs where "offs = written M Map.empty S"
  have o1d: "opt_duration o1 = Own (Num M)" by (simp add: o1_def)
  have first: "tween_entry num_of (o0, [], Map.empty) (Time M, d) 0 =
                 (o1, [d], [d \<mapsto> js_div (Num M) (Num M)])"
    by (simp add: o1_def)
  have offs': "offs = written M [d \<mapsto> js_div (Num M) (Num M)] S'"
    by (simp add: offs_def S written_Cons)
  have times: "forEach_idx (tween_entry num_of) (o0, [], Map.empty) 0 S = (o1, map snd S, offs)"
    using forEach_later_times[OF Sset _ o1d, of "Suc 0" num_of "[d]"
        "[d \<mapsto> js_div (Num M) (Num M)]"]
    unfolding S by (simp only: forEach_idx.simps first) (simp add: offs' S)
  have all: "forEach_idx (tween_entry num_of) (o0, [], Map.empty) 0 (S @ os) =
             forEach_idx (tween_entry num_of) (o1, map snd S, offs) (0 + length S) os"
    by (simp only: forEach_idx_append times)
  obtain o2 k2 f2 where
    r: "forEach_idx (tween_entry num_of) (o1, map snd S, offs) (0 + length S) os = (o2, k2, f2)"
    by (metis prod_cases3)
  have k2: "k2 = map snd S" and f2: "f2 = offs" and o2: "opt_duration o2 = opt_duration o1"
    using forEach_names[OF assms(3), of num_of o1 "map snd S" offs "0 + length S"] r
    by simp_all
  have tw: "tween num_of pe (ts @ os) =
              (map (\<lambda>d. (d, offset_of offs d)) (sort_by (by_offset offs) (map snd S)), o2)"
    using all r k2 f2
    by (simp add: tween_def sort_entries[OF assms(2,3)] S_def[symmetric] o0_def[symmetric]
        del: forEach_idx.simps)
  show "opt_duration (snd (tween num_of pe (ts @ os))) = Own (Num M)"
    by (simp add: tw o2 o1_def)
  show "fst (tween num_of pe (ts @ os)) =
           map (\<lambda>d. (d, offset_of (written M Map.empty S) d))
             (sort_by (by_offset (written M Map.empty S)) (map snd S))"
    by (simp only: tw fst_conv offs_def)
qed

subsection \<open>The claims about tween\<close>

text \<open>
  Claim C1, as the code has it. Let the entries be time keys that are finite and not
  negative, at least one of them, each with an object of its own, followed in the
  enumeration by option keys none of which is named \<^verbatim>\<open>duration\<close>. Then the duration
  handed to the effect is the largest time key; and when that key is positive, the
  keyframes are in non-decreasing order of offset, every offset lies between 0 and 1, and
  the keyframe of an entry with the largest time key has offset exactly 1.
\<close>

theorem tween_duration_and_offsets:
  assumes "ts \<noteq> []" "\<forall>e\<in>set ts. nonneg_time (fst e)" "distinct (map snd ts)"
    "\<forall>e\<in>set os. passthrough (fst e)"
  shows "opt_duration (snd (tween num_of pe (ts @ os))) = Own (Num (Max (time_of ` fst ` set ts))) \<and>
         (0 < Max (time_of ` fst ` set ts) \<longrightarrow>
            sorted_wrt (\<lambda>a b. js_le (snd a) (snd b)) (fst (tween num_of pe (ts @ os))) \<and>
            (\<forall>f\<in>set (fst (tween num_of pe (ts @ os))). in_unit (snd f)) \<and>
            (\<forall>e\<in>set ts. fst e = Time (Max (time_of ` fst ` set ts)) \<longrightarrow>
               (snd e, Num 1) \<in> set (fst (tween num_of pe (ts @ os)))))"
proof (intro conjI impI)
  define M where "M = Max (time_of ` fst ` set ts)"
  define S where "S = sort_key (\<lambda>e. - time_of (fst e)) ts"
  define offs where "offs = written M (Map.empty :: 'a \<rightharpoonup> jsnum) S"
  show "opt_duration (snd (tween num_of pe (ts @ os))) = Own (Num (Max (time_of ` fst ` set ts)))"
    by (rule tween_frames(1)[OF assms(1,2,4)])
  assume "0 < Max (time_of ` fst ` set ts)"
  then have pos: "0 < M" by (simp add: M_def)
  have fr: "fst (tween num_of pe (ts @ os)) =
              map (\<lambda>d. (d, offset_of offs d)) (sort_by (by_offset offs) (map snd S))"
    unfolding offs_def S_def M_def by (rule tween_frames(2)[OF assms(1,2,4)])
  have Sset: "set S = set ts" by (simp add: S_def)
  have "distinct ts" "inj_on snd (set ts)" using assms(3) by (simp_all add: distinct_map)
  then have dS: "distinct (map snd S)" by (simp add: distinct_map S_def)
  have held: "\<And>e. e \<in> set ts \<Longrightarrow> offset_of offs (snd e) = Num (time_of (fst e) / M)"
  proof -
    fix e assume "e \<in> set ts"
    then have "e \<in> set S" by (simp add: Sset)
    then have "offs (snd e) = Some (js_div (Num (time_of (fst e))) (Num M))"
      unfolding offs_def by (rule written_distinct[OF dS])
    then show "offset_of offs (snd e) = Num (time_of (fst e) / M)"
      using pos by (simp add: offset_of_def)
  qed
  have nums: "\<forall>d\<in>set (map snd S). is_num (offset_of offs d)"
    using held by (auto simp add: Sset)
  have srt: "sort_by (by_offset offs) (map snd S) =
             sort_key (\<lambda>d. rat_of (offset_of offs d)) (map snd S)"
    by (rule sort_offsets[OF nums])
  have rset: "set (fst (tween num_of pe (ts @ os))) =
              (\<lambda>e. (snd e, Num (time_of (fst e) / M))) ` set ts"
    using held by (auto simp add: fr srt Sset image_iff)
  have nums': "\<forall>d\<in>set (sort_key (\<lambda>d. rat_of (offset_of offs d)) (map snd S)).
                 is_num (offset_of offs d)"
    using nums by simp
  show "sorted_wrt (\<lambda>a b. js_le (snd a) (snd b)) (fst (tween num_of pe (ts @ os)))"
    unfolding fr srt by (rule sorted_offsets_js_le[OF sorted_sort_key nums'])
  show "\<forall>f\<in>set (fst (tween num_of pe (ts @ os))). in_unit (snd f)"
  proof
    fix f assume "f \<in> set (fst (tween num_of pe (ts @ os)))"
    then obtain e where e: "e \<in> set ts" "f = (snd e, Num (time_of (fst e) / M))"
      using rset by auto
    from e(1) assms(2) obtain r where r: "fst e = Time r" "0 \<le> r"
      by (cases "fst e") auto
    have "time_of (fst e) \<le> M"
      unfolding M_def using e(1) by (intro Max_ge) auto
    with r pos e(2) show "in_unit (snd f)" by simp
  qed
  show "\<forall>e\<in>set ts. fst e = Time (Max (time_of ` fst ` set ts)) \<longrightarrow>
          (snd e, Num 1) \<in> set (fst (tween num_of pe (ts @ os)))"
  proof (intro ballI impI)
    fix e assume e: "e \<in> set ts" "fst e = Time (Max (time_of ` fst ` set ts))"
    then have "time_of (fst e) / M = 1" using pos by (simp add: M_def)
    then have "(snd e, Num 1) = (\<lambda>e. (snd e, Num (time_of (fst e) / M))) e" by simp
    then show "(snd e, Num 1) \<in> set (fst (tween num_of pe (ts @ os)))"
      unfolding rset using e(1) by blast
  qed
qed

text \<open>
  The theorem at \<^verbatim>\<open>{0: start, 500: middle, 1000: end, easing: linear}\<close>: the duration is
  1000 and the offsets are 0, 1/2 and 1.
\<close>

theorem tween_duration_and_offsets_witness:
  "opt_duration (snd (tween (\<lambda>v. NaN) None
      ([(Time 0, ''start''), (Time 500, ''middle''), (Time 1000, ''end'')] @
       [(Name ''easing'', ''linear'')]))) =
     Own (Num (Max (time_of ` fst `
       set [(Time 0, ''start''), (Time 500, ''middle''), (Time 1000, ''end'')]))) \<and>
   Max (time_of ` fst ` set [(Time 0, ''start''), (Time 500, ''middle''), (Time 1000, ''end'')])
     = 1000 \<and>
   fst (tween (\<lambda>v. NaN) None
      ([(Time 0, ''start''), (Time 500, ''middle''), (Time 1000, ''end'')] @
       [(Name ''easing'', ''linear'')])) =
     [(''start'', Num 0), (''middle'', Num (1 / 2)), (''end'', Num 1)]"
proof -
  let ?ts = "[(Time 0, ''start''), (Time 500, ''middle''), (Time 1000, ''end'')]"
  let ?os = "[(Name ''easing'', ''linear'')]"
  have h1: "?ts \<noteq> []" by simp
  have h2: "\<forall>e\<in>set ?ts. nonneg_time (fst e)" by simp
  have h3: "distinct (map snd ?ts)" by simp
  have h4: "\<forall>e\<in>set ?os. passthrough (fst e)" by simp
  have e: "Max (time_of ` fst ` set ?ts) = 1000 \<and>
           fst (tween (\<lambda>v. NaN) None (?ts @ ?os)) =
             [(''start'', Num 0), (''middle'', Num (1 / 2)), (''end'', Num 1)]"
    by (simp add: tween_def sort_by_def set_option_def offset_of_def)
  from tween_duration_and_offsets[OF h1 h2 h3 h4, of "\<lambda>v. NaN" None] e show ?thesis by blast
qed

text \<open>
  Claim C1 as it is worded fails on a negative time key: for \<^verbatim>\<open>{10: a, "-5": b}\<close> the
  duration is 10 and the keyframe of \<^verbatim>\<open>b\<close> gets the offset -1/2.
\<close>

theorem tween_negative_time_offset_outside_unit:
  "map snd (fst (tween (\<lambda>v. NaN) None [(Time 10, ''a''), (Time (- 5), ''b'')])) =
     [Num (- 1 / 2), Num 1] \<and>
   \<not> in_unit (Num (- 1 / 2))"
  by (simp add: tween_def sort_by_def offset_of_def)

text \<open>
  Outside the theorem's hypotheses the keyframe of the largest time key need not have
  offset 1, and the duration is not always that key. An object held under two time keys
  keeps the offset written last, that of the smaller key. An option key that the object
  enumerates before the time key \<^verbatim>\<open>1.5\<close> sorts first, no entry with index 0 is a time
  entry, and the duration stays 0. A caller's \<^verbatim>\<open>duration\<close> option replaces the computed
  one.
\<close>

lemma tween_same_object_twice:
  "tween num_of pe [(Time 0, k), (Time 1000, k)] =
     ([(k, Num 0), (k, Num 0)],
      \<lparr>opt_duration = Own (Num 1000), opt_pseudoElement = Own pe, opt_fill = Own ''forwards'',
       opt_rest = Map.empty\<rparr>)"
  by (simp add: tween_def sort_by_def offset_of_def)

lemma tween_option_key_first:
  "opt_duration (snd (tween num_of pe [(Name ''easing'', v), (Time (3 / 2), d)])) = Own (Num 0) \<and>
   fst (tween num_of pe [(Name ''easing'', v), (Time (3 / 2), d)]) = [(d, PosInf)]"
  by (simp add: tween_def sort_by_def set_option_def offset_of_def)

lemma tween_duration_option_wins:
  "opt_duration (snd (tween num_of pe [(Time 0, a), (Time 1000, b), (Name ''duration'', v)])) =
     Given v"
  by (simp add: tween_def sort_by_def set_option_def)

text \<open>
  When every time key is 0 the duration is 0 and every offset is \<^verbatim>\<open>0 / 0\<close>.
\<close>

lemma tween_all_zero_offsets_nan:
  assumes "ts \<noteq> []" "\<forall>e\<in>set ts. fst e = Time 0"
  shows "opt_duration (snd (tween num_of pe ts)) = Own (Num 0) \<and>
         fst (tween num_of pe ts) \<noteq> [] \<and>
         (\<forall>f\<in>set (fst (tween num_of pe ts)). snd f = NaN)"
proof -
  define S where "S = sort_key (\<lambda>e. - time_of (fst e)) ts"
  define offs where "offs = written 0 (Map.empty :: 'a \<rightharpoonup> jsnum) S"
  have nn: "\<forall>e\<in>set ts. nonneg_time (fst e)" using assms(2) by simp
  have os: "\<forall>e\<in>set ([]::(key \<times> 'a) list). passthrough (fst e)" by simp
  have img: "time_of ` fst ` set ts = {0}"
    using assms by (cases ts) (auto simp add: image_iff)
  then have M: "Max (time_of ` fst ` set ts) = 0" by simp
  have d: "opt_duration (snd (tween num_of pe ts)) = Own (Num 0)"
    using tween_frames(1)[OF assms(1) nn os, of num_of pe] by (simp add: M)
  have fr: "fst (tween num_of pe ts) =
            map (\<lambda>d. (d, offset_of offs d)) (sort_by (by_offset offs) (map snd S))"
    using tween_frames(2)[OF assms(1) nn os, of num_of pe] by (simp add: M offs_def S_def)
  have Sset: "set S = set ts" by (simp add: S_def)
  have ne: "fst (tween num_of pe ts) \<noteq> []"
  proof
    assume "fst (tween num_of pe ts) = []"
    then have "set (sort_by (by_offset offs) (map snd S)) = {}" by (simp add: fr)
    then show False using assms(1) by (simp add: set_sort_by Sset)
  qed
  have "\<forall>f\<in>set (fst (tween num_of pe ts)). snd f = NaN"
  proof
    fix f assume "f \<in> set (fst (tween num_of pe ts))"
    then obtain x where x: "x \<in> snd ` set S" "f = (x, offset_of offs x)"
      by (auto simp add: fr set_sort_by)
    from x(1) have "\<exists>e\<in>set S. snd e = x \<and>
        written 0 Map.empty S x = Some (js_div (Num (time_of (fst e))) (Num 0))"
      by (rule written_some)
    then obtain e where e: "e \<in> set S"
      "written 0 Map.empty S x = Some (js_div (Num (time_of (fst e))) (Num 0))"
      by (elim bexE conjE)
    from e(1) have "fst e = Time 0" using assms(2) Sset by simp
    with e(2) have "offs x = Some NaN" by (simp add: offs_def)
    with x(2) show "snd f = NaN" by (simp add: offset_of_def)
  qed
  with d ne show ?thesis by simp
qed

text \<open>
  Claim C2 says that when every time key is 0 the offsets are 0 and no division by zero
  takes place. The code divides all the same: for \<^verbatim>\<open>{0: d}\<close> the duration is 0 and the
  offset is 0 / 0.
\<close>

theorem tween_zero_duration_offset_nan:
  "tween num_of pe [(Time 0, d)] =
     ([(d, NaN)],
      \<lparr>opt_duration = Own (Num 0), opt_pseudoElement = Own pe, opt_fill = Own ''forwards'',
       opt_rest = Map.empty\<rparr>)"
  by (simp add: tween_def sort_by_def offset_of_def)

section \<open>play\<close>

lemma effect_end_nonneg: "0 \<le> effect_end a"
  by (simp add: effect_end_def)

lemma effect_end_seeked [simp]: "effect_end (a\<lparr>currentTime := t\<rparr>) = effect_end a"
  by (simp add: effect_end_def)

lemma animation_play_twice: "animation_play (animation_play a) = animation_play a"
  using effect_end_nonneg[of a] by (auto simp add: animation_play_def effect_end_def)

lemma animation_play_seeked_twice:
  "animation_play ((animation_play (a\<lparr>currentTime := t\<rparr>))\<lparr>currentTime := t\<rparr>) =
   animation_play (a\<lparr>currentTime := t\<rparr>)"
  by (simp add: animation_play_def effect_end_def)

lemma seek_each_pair:
  "seek_each st (c, s) a =
     (case st of Some t \<Rightarrow> (t, s(a := animation_play ((s a)\<lparr>currentTime := t\<rparr>)))
      | None \<Rightarrow> (currentTime (s a), s(a := animation_play (s a))))"
  by (simp add: seek_each_def seek_value_def split: option.split)

lemma seek_to:
  "foldl (seek_each (Some t)) (c, s) as =
     (if as = [] then c else t,
      \<lambda>a. if a \<in> set as then animation_play ((s a)\<lparr>currentTime := t\<rparr>) else s a)"
proof (induction as arbitrary: c s)
  case Nil
  show ?case by simp
next
  case (Cons a as)
  show ?case
    by (simp add: seek_each_pair Cons.IH fun_eq_iff animation_play_seeked_twice)
qed

text \<open>
  Without a start the loop records the current time of the last animation, as it stands
  when the loop comes to it: started already, were the list to hold it twice.
\<close>

lemma seek_own:
  "foldl (seek_each None) (c, s) as =
     (if as = [] then c
      else if last as \<in> set (butlast as) then currentTime (animation_play (s (last as)))
      else currentTime (s (last as)),
      \<lambda>a. if a \<in> set as then animation_play (s a) else s a)"
proof (induction as rule: rev_induct)
  case Nil
  show ?case by simp
next
  case (snoc x xs)
  show ?case
    by (simp add: snoc.IH seek_each_pair fun_eq_iff animation_play_twice)
qed

lemma last_not_before: "distinct as \<Longrightarrow> as \<noteq> [] \<Longrightarrow> last as \<notin> set (butlast as)"
  by (induction as rule: rev_induct) simp_all

lemma play_resolved:
  "resolved (play ready running as dur st s) =
     fst (seek (resolve_start as s st) as (ready s)) + dur"
  by (simp add: play_def Let_def split: prod.split)

lemma play_timer: "timer (play ready running as dur st s) = \<bar>dur\<bar>"
  by (simp add: play_def Let_def split: prod.split)

lemma find_label:
  "find (\<lambda>a. anim_id (s a) = l) as = Some a \<Longrightarrow>
   resolve_start as s (StartLabel l) = Some (delay (effect (s a))) \<and> as \<noteq> []"
  by (auto simp add: resolve_start_def getComputedTiming_def)

text \<open>
  Claim C6. The timer \<^verbatim>\<open>play\<close> asks for lasts \<open>\<bar>dur\<bar>\<close>, and the promise resolves with
  the time recorded at the seek plus the signed \<open>dur\<close>. When the label is the id of an
  animation, every animation is seeked to the delay of the first such animation (where
  it stands once started, unless that time is outside its effect and the engine rewinds
  it to 0), and \<^verbatim>\<open>play(100, label)\<close> resolves with that delay plus 100. Without a start,
  \<^verbatim>\<open>play(-100)\<close> resolves with the recorded time (the current time the last animation
  has when all are ready, 0 when there is no animation) minus 100, on a timer of 100.
\<close>

theorem play_waits_abs_resolves_signed:
  "timer (play ready running as dur st s) = \<bar>dur\<bar> \<and>
   resolved (play ready running as dur st s) =
     fst (seek (resolve_start as s st) as (ready s)) + dur \<and>
   (find (\<lambda>a. anim_id (s a) = l) as = Some a \<longrightarrow>
      (\<forall>b. seek_value (resolve_start as s (StartLabel l)) (ready s b) = delay (effect (s a))) \<and>
      (\<forall>b\<in>set as. currentTime (snd (seek (resolve_start as s (StartLabel l)) as (ready s)) b) =
                     (if delay (effect (s a)) < 0 \<or> effect_end (ready s b) \<le> delay (effect (s a))
                      then 0 else delay (effect (s a)))) \<and>
      resolved (play ready running as 100 (StartLabel l) s) = delay (effect (s a)) + 100) \<and>
   resolved (play ready running as (- 100) NoStart s) =
      (if as = [] then 0
       else if last as \<in> set (butlast as)
         then currentTime (animation_play (ready s (last as)))
       else currentTime (ready s (last as))) - 100 \<and>
   (distinct as \<longrightarrow>
      resolved (play ready running as (- 100) NoStart s) =
        (if as = [] then 0 else currentTime (ready s (last as))) - 100) \<and>
   timer (play ready running as (- 100) NoStart s) = 100"
proof (intro conjI impI)
  show "timer (play ready running as dur st s) = \<bar>dur\<bar>" by (rule play_timer)
  show "resolved (play ready running as dur st s) =
          fst (seek (resolve_start as s st) as (ready s)) + dur"
    by (rule play_resolved)
  show "resolved (play ready running as (- 100) NoStart s) =
      (if as = [] then 0
       else if last as \<in> set (butlast as)
         then currentTime (animation_play (ready s (last as)))
       else currentTime (ready s (last as))) - 100"
    by (simp add: play_resolved resolve_start_def seek_def seek_own)
  show "timer (play ready running as (- 100) NoStart s) = 100" by (simp add: play_timer)
next
  assume "distinct as"
  then show "resolved (play ready running as (- 100) NoStart s) =
        (if as = [] then 0 else currentTime (ready s (last as))) - 100"
    by (simp add: play_resolved resolve_start_def seek_def seek_own last_not_before)
next
  assume f: "find (\<lambda>a. anim_id (s a) = l) as = Some a"
  note r = find_label[OF f]
  show "\<forall>b. seek_value (resolve_start as s (StartLabel l)) (ready s b) = delay (effect (s a))"
    using r by (simp add: seek_value_def)
  show "\<forall>b\<in>set as. currentTime (snd (seek (resolve_start as s (StartLabel l)) as (ready s)) b) =
                     (if delay (effect (s a)) < 0 \<or> effect_end (ready s b) \<le> delay (effect (s a))
                      then 0 else delay (effect (s a)))"
    using r by (simp add: seek_def seek_to animation_play_def)
  show "resolved (play ready running as 100 (StartLabel l) s) = delay (effect (s a)) + 100"
    using r by (simp add: play_resolved seek_def seek_to)
qed

theorem play_waits_abs_resolves_signed_witness:
  "find (\<lambda>a. anim_id (studio a) = ''A'') [0, 1] = Some 1 \<and>
   distinct [0::nat, 1] \<and>
   timer (play (\<lambda>s. s) (\<lambda>w s. s) [0, 1] (- 100) NoStart studio) = 100 \<and>
   resolved (play (\<lambda>s. s) (\<lambda>w s. s) [0, 1] (- 100) NoStart studio) =
     (if [0::nat, 1] = [] then 0 else currentTime (studio (last [0, 1]))) - 100 \<and>
   resolved (play (\<lambda>s. s) (\<lambda>w s. s) [0, 1] 100 (StartLabel ''A'') studio) =
     delay (effect (studio 1)) + 100 \<and>
   currentTime (studio (last [0, 1])) = 70 \<and>
   delay (effect (studio 1)) = 250"
proof -
  have h: "find (\<lambda>a. anim_id (studio a) = ''A'') [0, 1] = Some 1"
    by (simp add: studio_def fresh_def)
  have d: "distinct [0::nat, 1]" by simp
  have e: "currentTime (studio (last [0, 1])) = 70 \<and> delay (effect (studio 1)) = 250"
    by (simp add: studio_def fresh_def)
  from play_waits_abs_resolves_signed
         [of "\<lambda>s. s" "\<lambda>w s. s" "[0, 1]" "- 100" NoStart studio "''A''" 1] h d e
  show ?thesis by simp
qed

text \<open>
  An animation that stands at or behind its end is seeked to its own time like any other,
  and \<^verbatim>\<open>animation.play()\<close> then rewinds it: it runs from 0, while the time recorded for
  the promise is the one it was seeked to.
\<close>

lemma play_rewinds_finished:
  "seek_value None (finished 0) = 600 \<and>
   currentTime (snd (seek None [0] finished) 0) = 0 \<and>
   resolved (play (\<lambda>s. s) (\<lambda>w s. s) [0] 25 (StartLabel ''B'') finished) = 625"
  by (simp add: seek_value_def seek_def seek_each_def animation_play_def effect_end_def
      play_def resolve_start_def Let_def finished_def fresh_def)



text \<open>
  Claim C10. With no animation under the root, \<^verbatim>\<open>play\<close> resolves with \<open>dur\<close> itself,
  whatever the start: the recorded time is still the initial 0. The timer lasts
  \<open>\<bar>dur\<bar>\<close>, and the store is what the engine makes of it meanwhile.
\<close>

theorem play_nothing_resolves_dur:
  "resolved (play ready running [] dur st s) = dur \<and>
   timer (play ready running [] dur st s) = \<bar>dur\<bar> \<and>
   left (play ready running [] dur st s) = running \<bar>dur\<bar> (ready s)"
  by (simp add: play_def seek_def Let_def)

theorem play_nothing_resolves_dur_witness:
  "resolved (play (\<lambda>s. s) (\<lambda>w s. s) [] (- 40) (StartLabel ''A'') studio) = - 40 \<and>
   timer (play (\<lambda>s. s) (\<lambda>w s. s) [] (- 40) (StartLabel ''A'') studio) = 40"
  using play_nothing_resolves_dur[of "\<lambda>s. s" "\<lambda>w s. s" "- 40" "StartLabel ''A''" studio]
  by simp

end
